theory Spec2Isabelle
  imports Main
begin

section \<open>The corner-only 2x2 cube of libcube/cubes/cube2x2simple.py\<close>

text \<open>
  A shallow embedding of \<^verbatim>\<open>cube2x2simple.py\<close>. Python tuples are lists, Python ints are
  \<^typ>\<open>int\<close>, slot indices written as literals in the tables are \<^typ>\<open>nat\<close>. Every
  exception the Python can raise is a value \<open>Inl e\<close> of the result type.
\<close>

subsection \<open>Exceptions\<close>

datatype error = KeyError | IndexError | ValueError

subsection \<open>State and identity\<close>

text \<open>\<^verbatim>\<open>State = namedtuple("State", ['corner_pos', 'corner_ort'])\<close>\<close>

record State =
  corner_pos :: "int list"
  corner_ort :: "int list"

text \<open>\<^verbatim>\<open>initial_state = State(corner_pos=tuple(range(8)), corner_ort=tuple([0]*8))\<close>\<close>

definition initial_state :: State where
  "initial_state = \<lparr>corner_pos = map int [0..<8], corner_ort = replicate 8 0\<rparr>"

text \<open>
  \<^verbatim>\<open>is_initial\<close>: content equality of both tuples with those of \<^verbatim>\<open>initial_state\<close>.
\<close>

definition is_initial :: "State \<Rightarrow> bool" where
  "is_initial state \<longleftrightarrow>
     corner_pos state = corner_pos initial_state \<and> corner_ort state = corner_ort initial_state"

subsection \<open>Actions\<close>

text \<open>
  \<^verbatim>\<open>class Action(enum.Enum)\<close> with members \<^verbatim>\<open>R, T, B, r, t, b\<close>; the member
  \<^verbatim>\<open>Action.x\<close> is the constructor \<open>Action_x\<close>.
\<close>

datatype Action = Action_R | Action_T | Action_B | Action_r | Action_t | Action_b

text \<open>The members in definition order, as iterating the enumeration yields them.\<close>

definition all_actions :: "Action list" where
  "all_actions = [Action_R, Action_T, Action_B, Action_r, Action_t, Action_b]"

text \<open>The dictionary \<^verbatim>\<open>_inverse_action\<close>, as its key/value pairs in source order.\<close>

definition inverse_action_dict :: "(Action \<times> Action) list" where
  "inverse_action_dict =
     [(Action_R, Action_r), (Action_r, Action_R),
      (Action_T, Action_t), (Action_t, Action_T),
      (Action_B, Action_b), (Action_b, Action_B)]"

text \<open>\<^verbatim>\<open>inverse_action\<close>: a dictionary lookup, which raises KeyError on a missing key.\<close>

definition inverse_action :: "Action \<Rightarrow> error + Action" where
  "inverse_action action =
     (case map_of inverse_action_dict action of
        None \<Rightarrow> Inl KeyError
      | Some a \<Rightarrow> Inr a)"

subsection \<open>The generator table\<close>

text \<open>
  \<^verbatim>\<open>_transform_map\<close>: per generator the corner map (pairs of old and new position) and
  the corner rotation (pairs of position and flip).
\<close>

definition transform_map :: "(Action \<times> ((nat \<times> nat) list \<times> (nat \<times> int) list)) list" where
  "transform_map =
     [(Action_R, ([(1, 2), (2, 6), (6, 5), (5, 1)],
                  [(1, 2), (2, 1), (5, 1), (6, 2)])),
      (Action_T, ([(0, 3), (1, 0), (2, 1), (3, 2)],
                  [])),
      (Action_B, ([(2, 3), (3, 7), (7, 6), (6, 2)],
                  [(2, 2), (3, 1), (6, 1), (7, 2)]))]"

subsection \<open>The helpers of the module \<^verbatim>\<open>_common\<close>\<close>

text \<open>
  Modelled from the spec: \<^verbatim>\<open>_common._permute(t, m, is_inv)\<close>, whose module is not among
  the sources. The spec has the position cycle as a list of (source slot, destination slot)
  pairs; a generator relocates the values from source slots to destination slots, an inverse
  action traverses the cycle in the reverse direction (destination to source). Every value is
  read from the sequence as it was before the call, so the relocation is simultaneous. An
  index outside the sequence is Python's IndexError.
\<close>

fun common_permute_loop ::
  "'a list \<Rightarrow> (nat \<times> nat) list \<Rightarrow> bool \<Rightarrow> 'a list \<Rightarrow> error + 'a list" where
  "common_permute_loop t [] is_inv r = Inr r"
| "common_permute_loop t ((from_idx, to_idx) # m) is_inv r =
     (if is_inv then
        (if to_idx < length t \<and> from_idx < length r
         then common_permute_loop t m is_inv (r[from_idx := t ! to_idx])
         else Inl IndexError)
      else
        (if from_idx < length t \<and> to_idx < length r
         then common_permute_loop t m is_inv (r[to_idx := t ! from_idx])
         else Inl IndexError))"

definition common_permute :: "'a list \<Rightarrow> (nat \<times> nat) list \<Rightarrow> bool \<Rightarrow> error + 'a list" where
  "common_permute t m is_inv = common_permute_loop t m is_inv t"

text \<open>
  Modelled from the spec: \<^verbatim>\<open>_common._rotate(corner_ort, corners)\<close>, whose module is not
  among the sources. The spec has the orientation deltas as a list of (slot, delta) pairs and
  adds (mod 3) each listed delta to the orientation now present at that slot, after the
  relocation. The call in \<^verbatim>\<open>transform\<close> passes the orientations and the generator's list
  and nothing else.
\<close>

fun common_rotate :: "int list \<Rightarrow> (nat \<times> int) list \<Rightarrow> error + int list" where
  "common_rotate r [] = Inr r"
| "common_rotate r ((c, angle) # corners) =
     (if c < length r
      then common_rotate (r[c := (r ! c + angle) mod 3]) corners
      else Inl IndexError)"

subsection \<open>The move\<close>

text \<open>
  \<^verbatim>\<open>transform(state, action)\<close>. An action that is no key of \<^verbatim>\<open>_transform_map\<close> is
  replaced by its inverse, and the permutation runs with \<^verbatim>\<open>is_inv\<close> set; the rotation
  is called with the generator's list in both cases.
\<close>

definition transform :: "State \<Rightarrow> Action \<Rightarrow> error + State" where
  "transform state action =
     (let is_inv = (map_of transform_map action = None) in
      case (if is_inv then inverse_action action else Inr action) of
        Inl e \<Rightarrow> Inl e
      | Inr action' \<Rightarrow>
     (case map_of transform_map action' of
        None \<Rightarrow> Inl KeyError
      | Some (c_map, c_rot) \<Rightarrow>
     (case common_permute (corner_pos state) c_map is_inv of
        Inl e \<Rightarrow> Inl e
      | Inr cp \<Rightarrow>
     (case common_permute (corner_ort state) c_map is_inv of
        Inl e \<Rightarrow> Inl e
      | Inr co \<Rightarrow>
     (case common_rotate co c_rot of
        Inl e \<Rightarrow> Inl e
      | Inr co' \<Rightarrow> Inr \<lparr>corner_pos = cp, corner_ort = co'\<rparr>)))))"

text \<open>Sequential calls of \<^const>\<open>transform\<close>, stopping at the first exception.\<close>

fun transform_seq :: "State \<Rightarrow> Action list \<Rightarrow> error + State" where
  "transform_seq s [] = Inr s"
| "transform_seq s (a # as) =
     (case transform s a of Inl e \<Rightarrow> Inl e | Inr s' \<Rightarrow> transform_seq s' as)"

text \<open>The states an external driver can hold: the identity and what moves make of it.\<close>

inductive reachable :: "State \<Rightarrow> bool" where
  reachable_init: "reachable initial_state"
| reachable_step: "reachable s \<Longrightarrow> transform s a = Inr s' \<Longrightarrow> reachable s'"

code_pred reachable .

text \<open>The invariants of the data model: both sequences of length 8, \<open>corner_pos\<close> a
  permutation of 0..7, every orientation one of 0, 1, 2.\<close>

definition valid_state :: "State \<Rightarrow> bool" where
  "valid_state s \<longleftrightarrow>
     length (corner_pos s) = 8 \<and> length (corner_ort s) = 8 \<and>
     distinct (corner_pos s) \<and> set (corner_pos s) = {0..7} \<and>
     (\<forall>x \<in> set (corner_ort s). x \<in> {0, 1, 2})"

subsection \<open>Rendering\<close>

text \<open>
  \<^verbatim>\<open>RenderedState = namedtuple("RenderedState", ['top', 'front', 'left', 'right', 'back',
  'bottom'])\<close>; a side is a list of four cells, a cell is \<open>None\<close> until a colour is
  assigned. A field \<^verbatim>\<open>x\<close> is \<open>x_side\<close> here, \<open>top\<close> being a constant of HOL and
  \<open>back\<close> a command of Isar.
\<close>

type_synonym side = "string option list"

record RenderedState =
  top_side :: side
  front_side :: side
  left_side :: side
  right_side :: side
  back_side :: side
  bottom_side :: side

text \<open>\<^verbatim>\<open>_init_sides\<close>: six sides (top, left, back, front, right, bottom) of four empty cells.\<close>

definition init_sides :: "side list" where
  "init_sides = replicate 6 (replicate 4 None)"

definition corner_colors :: "string list list" where
  "corner_colors =
     [[''W'', ''R'', ''G''], [''W'', ''B'', ''R''], [''W'', ''O'', ''B''], [''W'', ''G'', ''O''],
      [''Y'', ''G'', ''R''], [''Y'', ''R'', ''B''], [''Y'', ''B'', ''O''], [''Y'', ''O'', ''G'']]"

text \<open>\<^verbatim>\<open>corner_maps\<close>: per slot, the (side, cell) coordinates of its three colours.\<close>

definition corner_maps :: "(nat \<times> nat) list list" where
  "corner_maps =
     [[(0, 2), (3, 0), (1, 1)],
      [(0, 3), (4, 0), (3, 1)],
      [(0, 1), (2, 0), (4, 1)],
      [(0, 0), (1, 0), (2, 1)],
      [(5, 0), (1, 3), (3, 2)],
      [(5, 1), (3, 3), (4, 2)],
      [(5, 3), (4, 3), (2, 2)],
      [(5, 2), (2, 3), (1, 2)]]"

text \<open>Python's \<^verbatim>\<open>xs[i]\<close> on a tuple: a negative index counts from the end, an index
  outside the tuple raises IndexError.\<close>

definition tuple_getitem :: "'a list \<Rightarrow> int \<Rightarrow> error + 'a" where
  "tuple_getitem xs i =
     (if 0 \<le> i \<and> i < int (length xs) then Inr (xs ! nat i)
      else if - int (length xs) \<le> i \<and> i < 0 then Inr (xs ! nat (i + int (length xs)))
      else Inl IndexError)"

text \<open>
  Modelled from the spec: \<^verbatim>\<open>_common._map_orient(cols, orient)\<close>, whose module is not
  among the sources. The spec rotates the 3-colour label cyclically by the orientation:
  0 is no rotation, 1 and 2 are the two other rotations of a 3-cycle, in a fixed direction
  that the spec leaves open; it says nothing of other orientations.
\<close>

definition common_map_orient :: "'a list \<Rightarrow> int \<Rightarrow> 'a list" where
  "common_map_orient cols orient = rotate (nat orient) cols"

text \<open>
  The inner loop of \<^verbatim>\<open>render\<close>: \<^verbatim>\<open>sides[arr_idx][index] = col\<close> for the zipped
  coordinates and colours. Beside the sides, the model keeps the list of the coordinates
  assigned so far, in order of assignment; the Python has no such list.
\<close>

fun render_cells ::
  "side list \<times> (nat \<times> nat) list \<Rightarrow> ((nat \<times> nat) \<times> string) list \<Rightarrow>
   error + side list \<times> (nat \<times> nat) list" where
  "render_cells (sides, written) [] = Inr (sides, written)"
| "render_cells (sides, written) (((arr_idx, index), col) # rest) =
     (if arr_idx < length sides \<and> index < length (sides ! arr_idx)
      then render_cells
             (sides[arr_idx := (sides ! arr_idx)[index := Some col]],
              written @ [(arr_idx, index)]) rest
      else Inl IndexError)"

text \<open>The outer loop of \<^verbatim>\<open>render\<close>, over the zipped positions, orientations and maps.\<close>

fun render_corners ::
  "side list \<times> (nat \<times> nat) list \<Rightarrow> (int \<times> int \<times> (nat \<times> nat) list) list \<Rightarrow>
   error + side list \<times> (nat \<times> nat) list" where
  "render_corners acc [] = Inr acc"
| "render_corners acc ((corner, orient, maps) # rest) =
     (case tuple_getitem corner_colors corner of
        Inl e \<Rightarrow> Inl e
      | Inr cols \<Rightarrow>
     (case render_cells acc (zip maps (common_map_orient cols orient)) of
        Inl e \<Rightarrow> Inl e
      | Inr acc' \<Rightarrow> render_corners acc' rest))"

text \<open>The two loops of \<^verbatim>\<open>render\<close> from the empty sides: the sides and the
  coordinates assigned.\<close>

definition render_sides :: "State \<Rightarrow> error + side list \<times> (nat \<times> nat) list" where
  "render_sides state =
     render_corners (init_sides, [])
       (zip (corner_pos state) (zip (corner_ort state) corner_maps))"

definition render :: "State \<Rightarrow> error + RenderedState" where
  "render state =
     (case render_sides state of
        Inl e \<Rightarrow> Inl e
      | Inr (sides, written) \<Rightarrow>
          Inr \<lparr>top_side = sides ! 0, front_side = sides ! 3, left_side = sides ! 1,
               right_side = sides ! 4, back_side = sides ! 2, bottom_side = sides ! 5\<rparr>)"

subsection \<open>Action tokens\<close>

definition render_action :: "Action \<Rightarrow> string" where
  "render_action action =
     (if action = Action_R then ''R+''
      else if action = Action_T then ''U+''
      else if action = Action_B then ''B+''
      else if action = Action_r then ''R-''
      else if action = Action_t then ''U-''
      else if action = Action_b then ''B-''
      else ''?'')"

text \<open>\<^verbatim>\<open>to_action\<close>: Python's \<^verbatim>\<open>None\<close> is \<open>None\<close>, an action \<open>a\<close> is \<open>Some a\<close>.\<close>

definition to_action :: "string \<Rightarrow> Action option" where
  "to_action form =
     (if form = ''R+'' then Some Action_R
      else if form = ''U+'' then Some Action_T
      else if form = ''B+'' then Some Action_B
      else if form = ''R-'' then Some Action_r
      else if form = ''U-'' then Some Action_t
      else if form = ''B-'' then Some Action_b
      else None)"

subsection \<open>Encoding\<close>

definition encoded_shape :: "nat \<times> nat" where
  "encoded_shape = (7, 24)"

text \<open>Python's \<^verbatim>\<open>tuple.index(x)\<close>: the first index holding \<open>x\<close>, or ValueError.\<close>

fun tuple_index :: "'a list \<Rightarrow> 'a \<Rightarrow> error + nat" where
  "tuple_index [] x = Inl ValueError"
| "tuple_index (y # ys) x =
     (if y = x then Inr 0
      else case tuple_index ys x of Inl e \<Rightarrow> Inl e | Inr i \<Rightarrow> Inr (Suc i))"

text \<open>
  The target is a two-dimensional numpy array, here the list of its rows. An index \<open>i\<close>
  into an axis of length \<open>n\<close> is good from \<open>-n\<close> up to \<open>n - 1\<close>, a negative one counting
  from the end; any other raises IndexError.
\<close>

definition has_shape :: "int list list \<Rightarrow> nat \<times> nat \<Rightarrow> bool" where
  "has_shape target shape \<longleftrightarrow>
     length target = fst shape \<and> (\<forall>row \<in> set target. length row = snd shape)"

definition axis_index :: "nat \<Rightarrow> int \<Rightarrow> error + nat" where
  "axis_index n i =
     (if 0 \<le> i \<and> i < int n then Inr (nat i)
      else if - int n \<le> i \<and> i < 0 then Inr (nat (i + int n))
      else Inl IndexError)"

text \<open>\<^verbatim>\<open>target[i, j] = v\<close>\<close>

definition ndarray_setitem :: "int list list \<Rightarrow> int \<Rightarrow> int \<Rightarrow> int \<Rightarrow> error + int list list" where
  "ndarray_setitem target i j v =
     (case axis_index (length target) i of
        Inl e \<Rightarrow> Inl e
      | Inr row \<Rightarrow>
     (case axis_index (length (target ! row)) j of
        Inl e \<Rightarrow> Inl e
      | Inr col \<Rightarrow> Inr (target[row := (target ! row)[col := v]])))"

text \<open>The index pair that one pass of the loop of \<^verbatim>\<open>encode_inplace\<close> computes for
  \<^verbatim>\<open>corner_idx\<close>: the row \<^verbatim>\<open>corner_idx\<close> and the column
  \<^verbatim>\<open>perm_pos * 3 + corn_ort\<close>.\<close>

definition encode_index :: "State \<Rightarrow> nat \<Rightarrow> error + int \<times> int" where
  "encode_index state corner_idx =
     (case tuple_index (corner_pos state) (int corner_idx) of
        Inl e \<Rightarrow> Inl e
      | Inr perm_pos \<Rightarrow>
     (case tuple_getitem (corner_ort state) (int perm_pos) of
        Inl e \<Rightarrow> Inl e
      | Inr corn_ort \<Rightarrow> Inr (int corner_idx, int perm_pos * 3 + corn_ort)))"

text \<open>The loop of \<^verbatim>\<open>encode_inplace\<close>; the array is mutated in place in the Python and
  returned here.\<close>

fun encode_loop :: "int list list \<Rightarrow> State \<Rightarrow> nat list \<Rightarrow> error + int list list" where
  "encode_loop target state [] = Inr target"
| "encode_loop target state (corner_idx # rest) =
     (case encode_index state corner_idx of
        Inl e \<Rightarrow> Inl e
      | Inr (i, j) \<Rightarrow>
     (case ndarray_setitem target i j 1 of
        Inl e \<Rightarrow> Inl e
      | Inr target' \<Rightarrow> encode_loop target' state rest))"

definition encode_inplace :: "int list list \<Rightarrow> State \<Rightarrow> error + int list list" where
  "encode_inplace target state = encode_loop target state [0..<7]"

subsection \<open>The inverse move as the specification words it\<close>

text \<open>
  The specification describes an inverse action through the entry of its counterpart
  generator. The definitions of this subsection follow those words, slot by slot, and not the
  loops of the code; they are what \<^const>\<open>transform\<close> is compared with.

  Relocation against the cycle (destination to source): the slot that a pair names as
  source receives the value of the pair's destination; a slot that is no source keeps its
  value.
\<close>

definition relocate_back :: "(nat \<times> nat) list \<Rightarrow> 'a list \<Rightarrow> 'a list" where
  "relocate_back c_map xs =
     map (\<lambda>i. case map_of c_map i of None \<Rightarrow> xs ! i | Some d \<Rightarrow> xs ! d) [0..<length xs]"

text \<open>Adding (mod 3) to each listed slot the delta listed for it.\<close>

definition add_deltas :: "(nat \<times> int) list \<Rightarrow> int list \<Rightarrow> int list" where
  "add_deltas c_rot xs =
     map (\<lambda>i. case map_of c_rot i of None \<Rightarrow> xs ! i | Some d \<Rightarrow> (xs ! i + d) mod 3)
       [0..<length xs]"

text \<open>The deltas of a list, negated (mod 3).\<close>

definition negated_deltas :: "(nat \<times> int) list \<Rightarrow> (nat \<times> int) list" where
  "negated_deltas c_rot = map (\<lambda>(c, d). (c, (- d) mod 3)) c_rot"

text \<open>The counterpart generator's entry for an action.\<close>

definition counterpart_entry ::
  "Action \<Rightarrow> error + (nat \<times> nat) list \<times> (nat \<times> int) list" where
  "counterpart_entry action =
     (case inverse_action action of
        Inl e \<Rightarrow> Inl e
      | Inr g \<Rightarrow> (case map_of transform_map g of None \<Rightarrow> Inl KeyError | Some entry \<Rightarrow> Inr entry))"

text \<open>The inverse move in the specification's words: relocate against the cycle, then add
  the negated deltas.\<close>

definition spec_inverse_move :: "State \<Rightarrow> Action \<Rightarrow> error + State" where
  "spec_inverse_move s action =
     (case counterpart_entry action of
        Inl e \<Rightarrow> Inl e
      | Inr (c_map, c_rot) \<Rightarrow>
          Inr \<lparr>corner_pos = relocate_back c_map (corner_pos s),
               corner_ort = add_deltas (negated_deltas c_rot)
                              (relocate_back c_map (corner_ort s))\<rparr>)"

text \<open>The same with the deltas as the generator lists them, not negated.\<close>

definition plain_inverse_move :: "State \<Rightarrow> Action \<Rightarrow> error + State" where
  "plain_inverse_move s action =
     (case counterpart_entry action of
        Inl e \<Rightarrow> Inl e
      | Inr (c_map, c_rot) \<Rightarrow>
          Inr \<lparr>corner_pos = relocate_back c_map (corner_pos s),
               corner_ort = add_deltas c_rot (relocate_back c_map (corner_ort s))\<rparr>)"

text \<open>
  Undoing the generator: the negated deltas are added at the slots the generator lists,
  which are the slots the values are taken from, and the values are relocated against the
  cycle afterwards.
\<close>

definition undo_move :: "State \<Rightarrow> Action \<Rightarrow> error + State" where
  "undo_move s action =
     (case counterpart_entry action of
        Inl e \<Rightarrow> Inl e
      | Inr (c_map, c_rot) \<Rightarrow>
          Inr \<lparr>corner_pos = relocate_back c_map (corner_pos s),
               corner_ort = relocate_back c_map
                              (add_deltas (negated_deltas c_rot) (corner_ort s))\<rparr>)"

subsection \<open>The bit of a corner, as the specification words it\<close>

text \<open>
  The specification sets, for the physical corner \<open>c\<close>, the bit at column \<open>p * 3 + o\<close>,
  where \<open>p\<close> is the slot with \<open>corner_pos[p] = c\<close> and \<open>o\<close> is \<open>corner_ort[p]\<close>.
  \<open>encoded_at s c col\<close> says that \<open>col\<close> is such a column.
\<close>

definition encoded_at :: "State \<Rightarrow> nat \<Rightarrow> nat \<Rightarrow> bool" where
  "encoded_at s c col \<longleftrightarrow>
     (\<exists>p \<in> {0..<8}. corner_pos s ! p = int c \<and> int col = int p * 3 + corner_ort s ! p)"

subsection \<open>The shape of the rendered sides\<close>

text \<open>Six sides of four cells, as \<^const>\<open>init_sides\<close> has them.\<close>

definition well_shaped :: "side list \<Rightarrow> bool" where
  "well_shaped sides \<longleftrightarrow> length sides = 6 \<and> (\<forall>side \<in> set sides. length side = 4)"

text \<open>The cell at a (side, cell) coordinate holds a colour.\<close>

definition filled :: "side list \<Rightarrow> nat \<times> nat \<Rightarrow> bool" where
  "filled sides fc \<longleftrightarrow> sides ! fst fc ! snd fc \<noteq> None"

section \<open>Properties\<close>

subsection \<open>States of length 8, and the moves on them\<close>

lemma len8: "length xs = 8 \<Longrightarrow> \<exists>a b c d e f g h. xs = [a,b,c,d,e,f,g,h]"
  by (auto simp: numeral_eq_Suc length_Suc_conv)

lemma initial_state_explicit:
  "initial_state = \<lparr>corner_pos = [0,1,2,3,4,5,6,7], corner_ort = [0,0,0,0,0,0,0,0]\<rparr>"
  by (simp add: initial_state_def upt_rec numeral_eq_Suc)

lemmas transform_unfold =
  transform_def transform_map_def inverse_action_def inverse_action_dict_def common_permute_def

lemma transform_R:
  "transform \<lparr>corner_pos = [p0,p1,p2,p3,p4,p5,p6,p7], corner_ort = [o0,o1,o2,o3,o4,o5,o6,o7]\<rparr> Action_R
   = Inr \<lparr>corner_pos = [p0,p5,p1,p3,p4,p6,p2,p7],
          corner_ort = [o0,(o5+2) mod 3,(o1+1) mod 3,o3,o4,(o6+1) mod 3,(o2+2) mod 3,o7]\<rparr>"
  by (simp add: transform_unfold)

lemma transform_r:
  "transform \<lparr>corner_pos = [p0,p1,p2,p3,p4,p5,p6,p7], corner_ort = [o0,o1,o2,o3,o4,o5,o6,o7]\<rparr> Action_r
   = Inr \<lparr>corner_pos = [p0,p2,p6,p3,p4,p1,p5,p7],
          corner_ort = [o0,(o2+2) mod 3,(o6+1) mod 3,o3,o4,(o1+1) mod 3,(o5+2) mod 3,o7]\<rparr>"
  by (simp add: transform_unfold)

lemma transform_T:
  "transform \<lparr>corner_pos = [p0,p1,p2,p3,p4,p5,p6,p7], corner_ort = [o0,o1,o2,o3,o4,o5,o6,o7]\<rparr> Action_T
   = Inr \<lparr>corner_pos = [p1,p2,p3,p0,p4,p5,p6,p7],
          corner_ort = [o1,o2,o3,o0,o4,o5,o6,o7]\<rparr>"
  by (simp add: transform_unfold)

lemma transform_t:
  "transform \<lparr>corner_pos = [p0,p1,p2,p3,p4,p5,p6,p7], corner_ort = [o0,o1,o2,o3,o4,o5,o6,o7]\<rparr> Action_t
   = Inr \<lparr>corner_pos = [p3,p0,p1,p2,p4,p5,p6,p7],
          corner_ort = [o3,o0,o1,o2,o4,o5,o6,o7]\<rparr>"
  by (simp add: transform_unfold)

lemma transform_B:
  "transform \<lparr>corner_pos = [p0,p1,p2,p3,p4,p5,p6,p7], corner_ort = [o0,o1,o2,o3,o4,o5,o6,o7]\<rparr> Action_B
   = Inr \<lparr>corner_pos = [p0,p1,p6,p2,p4,p5,p7,p3],
          corner_ort = [o0,o1,(o6+2) mod 3,(o2+1) mod 3,o4,o5,(o7+1) mod 3,(o3+2) mod 3]\<rparr>"
  by (simp add: transform_unfold)

lemma transform_b:
  "transform \<lparr>corner_pos = [p0,p1,p2,p3,p4,p5,p6,p7], corner_ort = [o0,o1,o2,o3,o4,o5,o6,o7]\<rparr> Action_b
   = Inr \<lparr>corner_pos = [p0,p1,p3,p7,p4,p5,p2,p6],
          corner_ort = [o0,o1,(o3+2) mod 3,(o7+1) mod 3,o4,o5,(o2+1) mod 3,(o6+2) mod 3]\<rparr>"
  by (simp add: transform_unfold)

lemmas transform_explicit = transform_R transform_r transform_T transform_t transform_B transform_b

lemma State_explicit:
  assumes "length (corner_pos s) = 8" "length (corner_ort s) = 8"
  obtains p0 p1 p2 p3 p4 p5 p6 p7 o0 o1 o2 o3 o4 o5 o6 o7 where
    "s = \<lparr>corner_pos = [p0,p1,p2,p3,p4,p5,p6,p7], corner_ort = [o0,o1,o2,o3,o4,o5,o6,o7]\<rparr>"
proof -
  obtain p0 p1 p2 p3 p4 p5 p6 p7 where p: "corner_pos s = [p0,p1,p2,p3,p4,p5,p6,p7]"
    using len8 [OF assms(1)] by blast
  obtain o0 o1 o2 o3 o4 o5 o6 o7 where q: "corner_ort s = [o0,o1,o2,o3,o4,o5,o6,o7]"
    using len8 [OF assms(2)] by blast
  have "s = \<lparr>corner_pos = [p0,p1,p2,p3,p4,p5,p6,p7], corner_ort = [o0,o1,o2,o3,o4,o5,o6,o7]\<rparr>"
    using p q by (cases s) simp
  then show thesis by (rule that)
qed

lemma mod3_back: "0 \<le> x \<Longrightarrow> x < 3 \<Longrightarrow> ((x + 1) mod 3 + 2) mod 3 = (x::int)"
  "0 \<le> x \<Longrightarrow> x < 3 \<Longrightarrow> ((x + 2) mod 3 + 1) mod 3 = (x::int)"
  by (simp_all add: mod_add_left_eq)

lemma ort_range: "x \<in> {0, 1, 2} \<longleftrightarrow> 0 \<le> x \<and> x < (3::int)"
  by auto


lemma distinct_rearrange:
  "distinct xs \<Longrightarrow> set ys = set xs \<Longrightarrow> length ys = length xs \<Longrightarrow> distinct ys"
  by (metis card_distinct distinct_card)


lemma pos_valid_rearrange:
  assumes "distinct xs \<and> set xs = {0..7::int}" "set ys = set xs" "length ys = length xs"
  shows "distinct ys \<and> set ys = {0..7::int}"
  using assms distinct_rearrange by metis

lemma valid_state_ortD:
  assumes "valid_state \<lparr>corner_pos = ps, corner_ort = [o0,o1,o2,o3,o4,o5,o6,o7]\<rparr>"
  shows "0 \<le> o0 \<and> o0 < 3" "0 \<le> o1 \<and> o1 < 3" "0 \<le> o2 \<and> o2 < 3"
    "0 \<le> o3 \<and> o3 < 3" "0 \<le> o4 \<and> o4 < 3" "0 \<le> o5 \<and> o5 < 3"
    "0 \<le> o6 \<and> o6 < 3" "0 \<le> o7 \<and> o7 < 3"
proof -
  from assms have "\<forall>x\<in>set [o0,o1,o2,o3,o4,o5,o6,o7]. 0 \<le> x \<and> x < 3"
    by (simp only: valid_state_def State.simps ort_range) simp
  then show "0 \<le> o0 \<and> o0 < 3" "0 \<le> o1 \<and> o1 < 3" "0 \<le> o2 \<and> o2 < 3"
    "0 \<le> o3 \<and> o3 < 3" "0 \<le> o4 \<and> o4 < 3" "0 \<le> o5 \<and> o5 < 3"
    "0 \<le> o6 \<and> o6 < 3" "0 \<le> o7 \<and> o7 < 3"
    by simp_all
qed

lemma valid_state_posD:
  assumes "valid_state \<lparr>corner_pos = ps, corner_ort = os\<rparr>"
  shows "distinct ps \<and> set ps = {0..7}"
  using assms by (simp only: valid_state_def State.simps)

lemma valid_stateI:
  assumes "distinct xs \<and> set xs = {0..7::int}" "set ps = set xs" "length ps = 8" "length xs = 8"
    "length os = 8" "\<forall>x\<in>set os. 0 \<le> x \<and> x < 3"
  shows "valid_state \<lparr>corner_pos = ps, corner_ort = os\<rparr>"
proof -
  have "distinct ps \<and> set ps = {0..7}"
    using pos_valid_rearrange [of xs ps] assms(1-4) by simp
  then show ?thesis using assms(3,5,6)
    by (simp only: valid_state_def State.simps ort_range)
qed

lemma transform_valid:
  assumes "valid_state s"
  shows "\<exists>s'. transform s a = Inr s' \<and> valid_state s'"
proof -
  from assms have l: "length (corner_pos s) = 8" "length (corner_ort s) = 8"
    by (simp_all add: valid_state_def)
  from l obtain p0 p1 p2 p3 p4 p5 p6 p7 o0 o1 o2 o3 o4 o5 o6 o7 where
    s: "s = \<lparr>corner_pos = [p0,p1,p2,p3,p4,p5,p6,p7], corner_ort = [o0,o1,o2,o3,o4,o5,o6,o7]\<rparr>"
    by (rule State_explicit)
  note P = valid_state_posD [OF assms [unfolded s]]
  note O = valid_state_ortD [OF assms [unfolded s]]
  note V = valid_stateI [OF P]
  show ?thesis
  proof (cases a)
    case Action_R
    show ?thesis unfolding s Action_R transform_R
      by (rule exI, rule conjI, rule refl, rule V) (simp_all add: insert_commute O)
  next
    case Action_T
    show ?thesis unfolding s Action_T transform_T
      by (rule exI, rule conjI, rule refl, rule V) (simp_all add: insert_commute O)
  next
    case Action_B
    show ?thesis unfolding s Action_B transform_B
      by (rule exI, rule conjI, rule refl, rule V) (simp_all add: insert_commute O)
  next
    case Action_r
    show ?thesis unfolding s Action_r transform_r
      by (rule exI, rule conjI, rule refl, rule V) (simp_all add: insert_commute O)
  next
    case Action_t
    show ?thesis unfolding s Action_t transform_t
      by (rule exI, rule conjI, rule refl, rule V) (simp_all add: insert_commute O)
  next
    case Action_b
    show ?thesis unfolding s Action_b transform_b
      by (rule exI, rule conjI, rule refl, rule V) (simp_all add: insert_commute O)
  qed
qed

lemma range8: "{0..7::int} = {0, 1, 2, 3, 4, 5, 6, 7}"
  by auto

lemma valid_initial_state: "valid_state initial_state"
  by (simp add: initial_state_explicit valid_state_def range8)

lemma reachable_valid: "reachable s \<Longrightarrow> valid_state s"
proof (induction rule: reachable.induct)
  case reachable_init
  show ?case by (rule valid_initial_state)
next
  case (reachable_step s a s')
  from transform_valid [OF reachable_step.IH, of a] reachable_step.hyps(2)
  show ?case by auto
qed

lemma transform_back:
  assumes "valid_state s"
  shows "\<exists>s' a'. transform s a = Inr s' \<and> inverse_action a = Inr a' \<and> transform s' a' = Inr s"
proof -
  from assms have l: "length (corner_pos s) = 8" "length (corner_ort s) = 8"
    by (simp_all add: valid_state_def)
  from l obtain p0 p1 p2 p3 p4 p5 p6 p7 o0 o1 o2 o3 o4 o5 o6 o7 where
    s: "s = \<lparr>corner_pos = [p0,p1,p2,p3,p4,p5,p6,p7], corner_ort = [o0,o1,o2,o3,o4,o5,o6,o7]\<rparr>"
    by (rule State_explicit)
  note O = valid_state_ortD [OF assms [unfolded s]]
  show ?thesis
    unfolding s using O
    by (cases a) (simp_all add: transform_explicit inverse_action_def inverse_action_dict_def mod3_back)
qed

subsection \<open>The state algebra\<close>

text \<open>
  Claim C1. For every reachable state \<open>s\<close> and every action \<open>a\<close> of the enumeration,
  \<open>transform s a\<close> returns a state, \<open>inverse_action a\<close> returns an action, and applying
  that action to that state returns \<open>s\<close> again; the identity state is reachable, so this
  holds there for all six actions.
\<close>

theorem transform_then_inverse:
  "reachable s \<Longrightarrow>
   \<exists>s' a'. transform s a = Inr s' \<and> inverse_action a = Inr a' \<and> transform s' a' = Inr s"
  by (rule transform_back) (rule reachable_valid)

text \<open>The hypothesis of C1 at the identity state, with the move R and back.\<close>

theorem transform_then_inverse_witness:
  "reachable initial_state \<and>
   transform initial_state Action_R =
     Inr \<lparr>corner_pos = [0, 5, 1, 3, 4, 6, 2, 7], corner_ort = [0, 2, 1, 0, 0, 1, 2, 0]\<rparr> \<and>
   inverse_action Action_R = Inr Action_r \<and>
   transform \<lparr>corner_pos = [0, 5, 1, 3, 4, 6, 2, 7], corner_ort = [0, 2, 1, 0, 0, 1, 2, 0]\<rparr> Action_r =
     Inr initial_state"
  using transform_then_inverse [OF reachable_init, of Action_R] reachable_init
  by (simp add: initial_state_explicit transform_explicit inverse_action_def inverse_action_dict_def)

text \<open>
  Claim C3. For every state whose \<open>corner_pos\<close> is a permutation of 0..7 and whose
  \<open>corner_ort\<close> values are all among 0, 1, 2, both sequences of length 8, and for every
  action, \<open>transform\<close> returns a state that satisfies the same invariants.
\<close>

theorem transform_preserves_invariants:
  "valid_state s \<Longrightarrow> \<exists>s'. transform s a = Inr s' \<and> valid_state s'"
  by (rule transform_valid)

text \<open>The hypothesis of C3 at the identity state, with the move B.\<close>

theorem transform_preserves_invariants_witness:
  "valid_state initial_state \<and>
   transform initial_state Action_B =
     Inr \<lparr>corner_pos = [0, 1, 6, 2, 4, 5, 7, 3], corner_ort = [0, 0, 2, 1, 0, 0, 1, 2]\<rparr> \<and>
   valid_state \<lparr>corner_pos = [0, 1, 6, 2, 4, 5, 7, 3], corner_ort = [0, 0, 2, 1, 0, 0, 1, 2]\<rparr>"
  using transform_preserves_invariants [OF valid_initial_state, of Action_B] valid_initial_state
  by (simp add: initial_state_explicit transform_explicit)

text \<open>
  Claim C4. For each of the three generators \<open>g\<close> (the keys of the generator table),
  four successive calls of \<open>transform\<close> with \<open>g\<close>, starting from the identity state, return
  the identity state: both sequences are back at their initial values.
\<close>

theorem generator_order_four:
  "g \<in> set (map fst transform_map) \<Longrightarrow>
   transform_seq initial_state (replicate 4 g) = Inr initial_state"
  by (auto simp: transform_map_def initial_state_explicit transform_explicit numeral_eq_Suc)

text \<open>The hypothesis of C4 for the generator R.\<close>

theorem generator_order_four_witness:
  "Action_R \<in> set (map fst transform_map) \<and>
   transform_seq initial_state [Action_R, Action_R, Action_R, Action_R] = Inr initial_state"
  using generator_order_four [of Action_R]
  by (simp add: transform_map_def numeral_eq_Suc)

text \<open>
  Claim C5. \<open>inverse_action\<close> returns an action for every action of the enumeration (it
  never raises), and it is an involution: the inverse of the inverse of \<open>a\<close> is \<open>a\<close>. It
  pairs each generator with a different action that is no generator: R with r, T with t,
  B with b.
\<close>

theorem inverse_action_involutive:
  "(\<exists>b. inverse_action a = Inr b \<and> inverse_action b = Inr a \<and> b \<noteq> a \<and>
        (a \<in> set (map fst transform_map)) \<noteq> (b \<in> set (map fst transform_map))) \<and>
   inverse_action Action_R = Inr Action_r \<and>
   inverse_action Action_T = Inr Action_t \<and>
   inverse_action Action_B = Inr Action_b"
  by (cases a) (simp_all add: inverse_action_def inverse_action_dict_def transform_map_def)

text \<open>
  Claim C9. \<open>is_initial\<close> holds of a state exactly when the state equals the identity
  state; it holds of the identity state, and for each of the six actions \<open>a\<close> the state
  that \<open>transform\<close> returns for the identity state and \<open>a\<close> is no goal.
\<close>

theorem is_initial_iff_identity:
  "(is_initial s \<longleftrightarrow> s = initial_state) \<and>
   is_initial initial_state \<and>
   (\<forall>a. \<exists>s'. transform initial_state a = Inr s' \<and> \<not> is_initial s')"
proof (intro conjI allI)
  show "is_initial s \<longleftrightarrow> s = initial_state"
    by (cases s) (auto simp: is_initial_def initial_state_def)
  show "is_initial initial_state"
    by (simp add: is_initial_def)
  fix a
  show "\<exists>s'. transform initial_state a = Inr s' \<and> \<not> is_initial s'"
    by (cases a) (simp_all add: initial_state_explicit transform_explicit is_initial_def)
qed

subsection \<open>The inverse actions and the generator entries\<close>

lemma upt8: "[0..<8] = [0, 1, 2, 3, 4, 5, 6, 7]"
  by (simp add: upt_rec numeral_eq_Suc)

lemmas inverse_move_unfold =
  counterpart_entry_def inverse_action_def inverse_action_dict_def transform_map_def
  relocate_back_def add_deltas_def upt8

text \<open>
  Claim C2, as stated, fails. The claim has \<open>transform\<close> with an inverse action equal to
  the relocation against the cycle followed by adding the negated (mod 3) deltas of the
  counterpart generator. From the identity state with the action r the two differ: the code
  adds the deltas of R as they are listed, 2 at slot 1, where the negated delta is 1.
\<close>

theorem spec_inverse_move_counterexample:
  "transform initial_state Action_r \<noteq> spec_inverse_move initial_state Action_r"
  by (simp add: initial_state_explicit transform_explicit spec_inverse_move_def
      counterpart_entry_def inverse_action_def inverse_action_dict_def transform_map_def
      relocate_back_def add_deltas_def negated_deltas_def upt8)

text \<open>
  Claim C2, amended. For every state with both sequences of length 8 and every inverse
  action (an action that is no key of the generator table), \<open>transform\<close> returns the result
  of taking the counterpart generator's entry, relocating \<open>corner_pos\<close> and \<open>corner_ort\<close>
  against the position cycle (destination to source) and then adding (mod 3) the deltas of
  that generator as listed, not negated.
\<close>

theorem transform_inverse_action_plain_deltas:
  assumes "map_of transform_map a = None"
    and "length (corner_pos s) = 8" and "length (corner_ort s) = 8"
  shows "transform s a = plain_inverse_move s a"
proof -
  from assms(2,3) obtain p0 p1 p2 p3 p4 p5 p6 p7 o0 o1 o2 o3 o4 o5 o6 o7 where
    s: "s = \<lparr>corner_pos = [p0,p1,p2,p3,p4,p5,p6,p7], corner_ort = [o0,o1,o2,o3,o4,o5,o6,o7]\<rparr>"
    by (rule State_explicit)
  show ?thesis
  proof (cases a)
    case Action_r
    show ?thesis unfolding s Action_r transform_r
      by (simp add: plain_inverse_move_def inverse_move_unfold)
  next
    case Action_t
    show ?thesis unfolding s Action_t transform_t
      by (simp add: plain_inverse_move_def inverse_move_unfold)
  next
    case Action_b
    show ?thesis unfolding s Action_b transform_b
      by (simp add: plain_inverse_move_def inverse_move_unfold)
  qed (use assms(1) in \<open>simp_all add: transform_map_def\<close>)
qed

text \<open>The hypotheses of the amended C2 at the identity state, with the action r.\<close>

theorem transform_inverse_action_plain_deltas_witness:
  "map_of transform_map Action_r = None \<and>
   length (corner_pos initial_state) = 8 \<and> length (corner_ort initial_state) = 8 \<and>
   transform initial_state Action_r =
     Inr \<lparr>corner_pos = [0, 2, 6, 3, 4, 1, 5, 7], corner_ort = [0, 2, 1, 0, 0, 1, 2, 0]\<rparr> \<and>
   plain_inverse_move initial_state Action_r =
     Inr \<lparr>corner_pos = [0, 2, 6, 3, 4, 1, 5, 7], corner_ort = [0, 2, 1, 0, 0, 1, 2, 0]\<rparr>"
  using transform_inverse_action_plain_deltas [of Action_r initial_state]
  by (simp add: transform_map_def initial_state_explicit transform_explicit)

text \<open>
  Why the plain deltas invert the generator: in each entry of the table the delta listed for
  the source slot of a pair is the negation (mod 3) of the delta listed for its destination
  slot. So an inverse action is also the generator undone, with the negated deltas added
  before the relocation.
\<close>

lemma transform_inverse_action_undoes:
  assumes "map_of transform_map a = None"
    and "length (corner_pos s) = 8" and "length (corner_ort s) = 8"
  shows "transform s a = undo_move s a"
proof -
  from assms(2,3) obtain p0 p1 p2 p3 p4 p5 p6 p7 o0 o1 o2 o3 o4 o5 o6 o7 where
    s: "s = \<lparr>corner_pos = [p0,p1,p2,p3,p4,p5,p6,p7], corner_ort = [o0,o1,o2,o3,o4,o5,o6,o7]\<rparr>"
    by (rule State_explicit)
  show ?thesis
  proof (cases a)
    case Action_r
    show ?thesis unfolding s Action_r transform_r
      by (simp add: undo_move_def inverse_move_unfold negated_deltas_def)
  next
    case Action_t
    show ?thesis unfolding s Action_t transform_t
      by (simp add: undo_move_def inverse_move_unfold negated_deltas_def)
  next
    case Action_b
    show ?thesis unfolding s Action_b transform_b
      by (simp add: undo_move_def inverse_move_unfold negated_deltas_def)
  qed (use assms(1) in \<open>simp_all add: transform_map_def\<close>)
qed

subsection \<open>Action tokens\<close>

text \<open>
  Claim C6. Parsing the token of an action returns the action, for all six actions; every
  token has two characters and the six tokens are distinct; a string that is none of the six
  tokens parses to \<open>None\<close>, the unrecognized result, and nothing is raised.
\<close>

theorem action_token_round_trip:
  "to_action (render_action a) = Some a \<and>
   length (render_action a) = 2 \<and>
   set all_actions = UNIV \<and>
   distinct (map render_action all_actions) \<and>
   (form \<notin> set (map render_action all_actions) \<longrightarrow> to_action form = None)"
proof (intro conjI impI)
  show "to_action (render_action a) = Some a"
    by (cases a) (simp_all add: render_action_def to_action_def)
  show "length (render_action a) = 2"
    by (cases a) (simp_all add: render_action_def)
  show "set all_actions = UNIV"
  proof -
    have "x \<in> set all_actions" for x
      by (cases x) (simp_all add: all_actions_def)
    then show ?thesis by blast
  qed
  show "distinct (map render_action all_actions)"
    by (simp add: all_actions_def render_action_def)
  assume "form \<notin> set (map render_action all_actions)"
  then show "to_action form = None"
    by (simp add: all_actions_def render_action_def to_action_def)
qed

text \<open>The hypothesis of C6 at the string ZZ, and the round trip of the action t.\<close>

theorem action_token_round_trip_witness:
  "''ZZ'' \<notin> set (map render_action all_actions) \<and> to_action ''ZZ'' = None \<and>
   to_action (render_action Action_t) = Some Action_t \<and> render_action Action_t = ''U-''"
  using action_token_round_trip [of Action_t "''ZZ''"]
  by (simp add: all_actions_def render_action_def)

subsection \<open>Encoding\<close>

lemma tuple_index_found:
  "x \<in> set xs \<Longrightarrow> \<exists>i. tuple_index xs x = Inr i \<and> i < length xs \<and> xs ! i = x"
proof (induction xs)
  case Nil
  then show ?case by simp
next
  case (Cons y ys)
  show ?case
  proof (cases "y = x")
    case True
    then show ?thesis by simp
  next
    case False
    with Cons.prems have "x \<in> set ys" by simp
    from Cons.IH [OF this] obtain i where "tuple_index ys x = Inr i" "i < length ys" "ys ! i = x"
      by blast
    with False show ?thesis by simp
  qed
qed

lemma encode_index_valid:
  assumes "valid_state s" and "c < 8"
  shows "\<exists>p. p < 8 \<and> corner_pos s ! p = int c \<and>
             0 \<le> corner_ort s ! p \<and> corner_ort s ! p < 3 \<and>
             encode_index s c = Inr (int c, int p * 3 + corner_ort s ! p)"
proof -
  from assms(1) have len: "length (corner_pos s) = 8" "length (corner_ort s) = 8"
    and pos: "set (corner_pos s) = {0..7}"
    by (simp_all add: valid_state_def)
  from assms(1) have ort: "\<forall>x\<in>set (corner_ort s). 0 \<le> x \<and> x < 3"
    unfolding valid_state_def ort_range by blast
  from assms(2) pos have "int c \<in> set (corner_pos s)" by simp
  from tuple_index_found [OF this] len(1) obtain p where
    p: "tuple_index (corner_pos s) (int c) = Inr p" "p < 8" "corner_pos s ! p = int c"
    by auto
  from p(2) len(2) have "corner_ort s ! p \<in> set (corner_ort s)" by simp
  with ort have o: "0 \<le> corner_ort s ! p \<and> corner_ort s ! p < 3" by blast
  from p(2) len(2) have "tuple_getitem (corner_ort s) (int p) = Inr (corner_ort s ! p)"
    by (simp add: tuple_getitem_def)
  with p o show ?thesis
    by (auto simp: encode_index_def)
qed

lemma ndarray_setitem_in_shape:
  assumes "has_shape target (7, 24)" and "c < 7" and "0 \<le> j" and "j < 24"
  shows "ndarray_setitem target (int c) j 1 = Inr (target[c := (target ! c)[nat j := 1]])"
    and "has_shape (target[c := (target ! c)[nat j := 1]]) (7, 24)"
proof -
  from assms(1) have len: "length target = 7" and rows: "\<forall>row\<in>set target. length row = 24"
    by (simp_all add: has_shape_def)
  from len assms(2) have "target ! c \<in> set target" by simp
  with rows have lc: "length (target ! c) = 24" by blast
  from len lc assms(2-4)
  show "ndarray_setitem target (int c) j 1 = Inr (target[c := (target ! c)[nat j := 1]])"
    by (simp add: ndarray_setitem_def axis_index_def)
  have "set (target[c := (target ! c)[nat j := 1]]) \<subseteq> insert ((target ! c)[nat j := 1]) (set target)"
    by (rule set_update_subset_insert)
  with rows lc len
  show "has_shape (target[c := (target ! c)[nat j := 1]]) (7, 24)"
    by (auto simp: has_shape_def)
qed

lemma encoded_at_unique:
  assumes "valid_state s" and "p < 8" and "corner_pos s ! p = int c"
  shows "encoded_at s c col \<longleftrightarrow> int col = int p * 3 + corner_ort s ! p"
proof -
  from assms(1) have d: "distinct (corner_pos s)" and l: "length (corner_pos s) = 8"
    by (simp_all add: valid_state_def)
  have "q = p" if "q < 8" "corner_pos s ! q = int c" for q
  proof -
    from that(1) assms(2) l have "q < length (corner_pos s)" "p < length (corner_pos s)"
      by simp_all
    from nth_eq_iff_index_eq [OF d this] that(2) assms(3) show ?thesis by simp
  qed
  then have "(\<exists>q\<in>{0..<8}. corner_pos s ! q = int c \<and> int col = int q * 3 + corner_ort s ! q)
      \<longleftrightarrow> int col = int p * 3 + corner_ort s ! p"
    using assms(2,3) by (metis atLeastLessThan_iff le0)
  then show ?thesis
    unfolding encoded_at_def .
qed

lemma encode_loop_result:
  assumes v: "valid_state s"
  shows "has_shape target (7, 24) \<Longrightarrow> \<forall>c\<in>set cs. c < 7 \<Longrightarrow>
    \<exists>target'. encode_loop target s cs = Inr target' \<and> has_shape target' (7, 24) \<and>
      (\<forall>c<7. \<forall>col<24. target' ! c ! col =
         (if c \<in> set cs \<and> encoded_at s c col then 1 else target ! c ! col))"
proof (induction cs arbitrary: target)
  case Nil
  then show ?case by simp
next
  case (Cons c0 rest)
  from Cons.prems(2) have c0: "c0 < 7" and rest: "\<forall>c\<in>set rest. c < 7" by simp_all
  from c0 have "c0 < 8" by simp
  from encode_index_valid [OF v this] obtain p where
    p: "p < 8" "corner_pos s ! p = int c0" "0 \<le> corner_ort s ! p" "corner_ort s ! p < 3"
       "encode_index s c0 = Inr (int c0, int p * 3 + corner_ort s ! p)"
    by blast
  define j where "j = int p * 3 + corner_ort s ! p"
  from p(1,3,4) have j: "0 \<le> j" "j < 24" unfolding j_def by linarith+
  define target1 where "target1 = target[c0 := (target ! c0)[nat j := 1]]"
  note set1 = ndarray_setitem_in_shape [OF Cons.prems(1) c0 j, folded target1_def]
  from Cons.IH [OF set1(2) rest] obtain target' where
    t': "encode_loop target1 s rest = Inr target'" "has_shape target' (7, 24)"
        "\<forall>c<7. \<forall>col<24. target' ! c ! col =
           (if c \<in> set rest \<and> encoded_at s c col then 1 else target1 ! c ! col)"
    by blast
  from p(5) set1(1) t'(1) have run: "encode_loop target s (c0 # rest) = Inr target'"
    by (simp add: j_def)
  from Cons.prems(1) have len: "length target = 7" and rows: "\<forall>row\<in>set target. length row = 24"
    by (simp_all add: has_shape_def)
  from len c0 have "target ! c0 \<in> set target" by simp
  with rows have lc: "length (target ! c0) = 24" by blast
  have one: "target1 ! c ! col = (if c = c0 \<and> encoded_at s c col then 1 else target ! c ! col)"
    if "c < 7" "col < 24" for c col
  proof (cases "c = c0")
    case True
    have "encoded_at s c0 col \<longleftrightarrow> int col = j"
      unfolding j_def by (rule encoded_at_unique [OF v p(1,2)])
    also have "\<dots> \<longleftrightarrow> col = nat j" using j(1) by linarith
    finally have e: "encoded_at s c0 col \<longleftrightarrow> col = nat j" .
    from len c0 have "target1 ! c0 = (target ! c0)[nat j := 1]"
      by (simp add: target1_def)
    with lc that(2) have "target1 ! c0 ! col = (if col = nat j then 1 else target ! c0 ! col)"
      by (simp add: nth_list_update)
    with True e show ?thesis by simp
  next
    case False
    then show ?thesis by (simp add: target1_def)
  qed
  have "\<forall>c<7. \<forall>col<24. target' ! c ! col =
         (if c \<in> set (c0 # rest) \<and> encoded_at s c col then 1 else target ! c ! col)"
  proof (intro allI impI)
    fix c col :: nat
    assume b: "c < 7" "col < 24"
    from t'(3) b have "target' ! c ! col =
        (if c \<in> set rest \<and> encoded_at s c col then 1 else target1 ! c ! col)"
      by blast
    with one [OF b]
    show "target' ! c ! col =
        (if c \<in> set (c0 # rest) \<and> encoded_at s c col then 1 else target ! c ! col)"
      by (auto split: if_splits)
  qed
  with run t'(2) show ?case by blast
qed

text \<open>
  Claim C10. For every state that satisfies the invariants and every \<open>corner_idx\<close> of the
  loop of \<open>encode_inplace\<close>, the index pair of the assignment is computed without an
  exception and lies within the declared shape (7, 24): the row is from 0 to 6 and the
  column \<open>perm_pos * 3 + corn_ort\<close> is from 0 to 23.
\<close>

theorem encode_index_in_shape:
  assumes "valid_state s" and "corner_idx \<in> set [0..<7]"
  shows "\<exists>i j. encode_index s corner_idx = Inr (i, j) \<and>
               0 \<le> i \<and> i < int (fst encoded_shape) \<and>
               0 \<le> j \<and> j < int (snd encoded_shape)"
proof -
  from assms(2) have c: "corner_idx < 7" by simp
  then have "corner_idx < 8" by simp
  from encode_index_valid [OF assms(1) this] obtain p where
    p: "p < 8" "0 \<le> corner_ort s ! p" "corner_ort s ! p < 3"
       "encode_index s corner_idx = Inr (int corner_idx, int p * 3 + corner_ort s ! p)"
    by blast
  from p(1-3) have "0 \<le> int p * 3 + corner_ort s ! p \<and> int p * 3 + corner_ort s ! p < 24"
    by linarith
  with p(4) c show ?thesis
    by (simp add: encoded_shape_def)
qed

text \<open>The hypotheses of C10 at the identity state and the corner 6.\<close>

theorem encode_index_in_shape_witness:
  "valid_state initial_state \<and> (6::nat) \<in> set [0..<7] \<and>
   encode_index initial_state 6 = Inr (6, 18) \<and>
   (6::int) < int (fst encoded_shape) \<and> (18::int) < int (snd encoded_shape)"
  using encode_index_in_shape [OF valid_initial_state, of 6] valid_initial_state
  by (simp add: encoded_shape_def encode_index_def initial_state_explicit tuple_getitem_def)

text \<open>
  Claim C7. For every state that satisfies the invariants and every target of shape (7, 24),
  \<open>encode_inplace\<close> returns a target of the same shape in which, for each physical corner
  \<open>c\<close> from 0 to 6, the entry of row \<open>c\<close> at the column \<open>p * 3 + o\<close> of that corner is 1
  and every other entry is as it was; each row has exactly one such column, and there is no
  row for corner 7. On a zeroed target the result has a 1 exactly at these columns and 0
  elsewhere.
\<close>

theorem encode_inplace_one_bit_per_row:
  assumes "valid_state s" and "has_shape target encoded_shape"
  shows "\<exists>target'. encode_inplace target s = Inr target' \<and> has_shape target' encoded_shape \<and>
     (\<forall>c<7. \<forall>col<24. target' ! c ! col = (if encoded_at s c col then 1 else target ! c ! col)) \<and>
     (\<forall>c<7. \<exists>!col. col < 24 \<and> encoded_at s c col) \<and>
     ((\<forall>row\<in>set target. \<forall>x\<in>set row. x = 0) \<longrightarrow>
        (\<forall>c<7. \<forall>col<24. target' ! c ! col = (if encoded_at s c col then 1 else 0)))"
proof -
  from assms(2) have sh: "has_shape target (7, 24)" by (simp add: encoded_shape_def)
  have "\<forall>c\<in>set [0..<7]. c < 7" by simp
  from encode_loop_result [OF assms(1) sh this] obtain target' where
    t': "encode_loop target s [0..<7] = Inr target'" "has_shape target' (7, 24)"
        "\<forall>c<7. \<forall>col<24. target' ! c ! col =
           (if c \<in> set [0..<7] \<and> encoded_at s c col then 1 else target ! c ! col)"
    by blast
  from t'(3) have upd: "\<forall>c<7. \<forall>col<24. target' ! c ! col =
      (if encoded_at s c col then 1 else target ! c ! col)"
    by simp
  have uniq: "\<exists>!col. col < 24 \<and> encoded_at s c col" if "c < 7" for c
  proof -
    from that have "c < 8" by simp
    from encode_index_valid [OF assms(1) this] obtain p where
      p: "p < 8" "corner_pos s ! p = int c" "0 \<le> corner_ort s ! p" "corner_ort s ! p < 3"
      by blast
    note eq = encoded_at_unique [OF assms(1) p(1,2)]
    define k where "k = nat (int p * 3 + corner_ort s ! p)"
    from p(1,3,4) have k: "k < 24" "int k = int p * 3 + corner_ort s ! p"
      unfolding k_def by linarith+
    have "col = k" if "col < 24 \<and> int col = int p * 3 + corner_ort s ! p" for col
      using that k(2) by linarith
    with k show ?thesis
      unfolding eq by (intro ex1I [of _ k]) blast+
  qed
  have zero: "\<forall>c<7. \<forall>col<24. target' ! c ! col = (if encoded_at s c col then 1 else 0)"
    if z: "\<forall>row\<in>set target. \<forall>x\<in>set row. x = 0"
  proof (intro allI impI)
    fix c col :: nat
    assume c: "c < 7" and col: "col < 24"
    from sh have len: "length target = 7" and rows: "\<forall>row\<in>set target. length row = 24"
      by (simp_all add: has_shape_def)
    from len c have r: "target ! c \<in> set target" by simp
    with rows col have "target ! c ! col \<in> set (target ! c)" by simp
    with z r have "target ! c ! col = 0" by blast
    with upd c col show "target' ! c ! col = (if encoded_at s c col then 1 else 0)" by simp
  qed
  from t'(1) have run: "encode_inplace target s = Inr target'"
    by (simp add: encode_inplace_def)
  from t'(2) have sh': "has_shape target' encoded_shape"
    by (simp add: encoded_shape_def)
  from uniq have uniq': "\<forall>c<7. \<exists>!col. col < 24 \<and> encoded_at s c col"
    by blast
  from zero have zero': "(\<forall>row\<in>set target. \<forall>x\<in>set row. x = 0) \<longrightarrow>
      (\<forall>c<7. \<forall>col<24. target' ! c ! col = (if encoded_at s c col then 1 else 0))"
    by blast
  show ?thesis
    by (rule exI [of _ target']) (intro conjI run sh' upd uniq' zero')
qed

text \<open>The hypotheses of C7 at the identity state and the zeroed target.\<close>

theorem encode_inplace_one_bit_per_row_witness:
  "valid_state initial_state \<and>
   has_shape (replicate 7 (replicate 24 0)) encoded_shape \<and>
   encode_inplace (replicate 7 (replicate 24 0)) initial_state = Inr
     [
      [1, 0, 0, 0, 0, 0, 0, 0, 0, 0, 0, 0, 0, 0, 0, 0, 0, 0, 0, 0, 0, 0, 0, 0],
      [0, 0, 0, 1, 0, 0, 0, 0, 0, 0, 0, 0, 0, 0, 0, 0, 0, 0, 0, 0, 0, 0, 0, 0],
      [0, 0, 0, 0, 0, 0, 1, 0, 0, 0, 0, 0, 0, 0, 0, 0, 0, 0, 0, 0, 0, 0, 0, 0],
      [0, 0, 0, 0, 0, 0, 0, 0, 0, 1, 0, 0, 0, 0, 0, 0, 0, 0, 0, 0, 0, 0, 0, 0],
      [0, 0, 0, 0, 0, 0, 0, 0, 0, 0, 0, 0, 1, 0, 0, 0, 0, 0, 0, 0, 0, 0, 0, 0],
      [0, 0, 0, 0, 0, 0, 0, 0, 0, 0, 0, 0, 0, 0, 0, 1, 0, 0, 0, 0, 0, 0, 0, 0],
      [0, 0, 0, 0, 0, 0, 0, 0, 0, 0, 0, 0, 0, 0, 0, 0, 0, 0, 1, 0, 0, 0, 0, 0]]"
proof -
  have h: "has_shape (replicate 7 (replicate 24 0)) encoded_shape"
    by (simp add: has_shape_def encoded_shape_def)
  have e: "encode_inplace (replicate 7 (replicate 24 0)) initial_state = Inr
     [
      [1, 0, 0, 0, 0, 0, 0, 0, 0, 0, 0, 0, 0, 0, 0, 0, 0, 0, 0, 0, 0, 0, 0, 0],
      [0, 0, 0, 1, 0, 0, 0, 0, 0, 0, 0, 0, 0, 0, 0, 0, 0, 0, 0, 0, 0, 0, 0, 0],
      [0, 0, 0, 0, 0, 0, 1, 0, 0, 0, 0, 0, 0, 0, 0, 0, 0, 0, 0, 0, 0, 0, 0, 0],
      [0, 0, 0, 0, 0, 0, 0, 0, 0, 1, 0, 0, 0, 0, 0, 0, 0, 0, 0, 0, 0, 0, 0, 0],
      [0, 0, 0, 0, 0, 0, 0, 0, 0, 0, 0, 0, 1, 0, 0, 0, 0, 0, 0, 0, 0, 0, 0, 0],
      [0, 0, 0, 0, 0, 0, 0, 0, 0, 0, 0, 0, 0, 0, 0, 1, 0, 0, 0, 0, 0, 0, 0, 0],
      [0, 0, 0, 0, 0, 0, 0, 0, 0, 0, 0, 0, 0, 0, 0, 0, 0, 0, 1, 0, 0, 0, 0, 0]]"
    by code_simp
  from encode_inplace_one_bit_per_row [OF valid_initial_state h] valid_initial_state h e
  show ?thesis by simp
qed

subsection \<open>Rendering\<close>

lemma corner_maps_distinct: "distinct (concat corner_maps)"
  by (simp add: corner_maps_def)

lemma all_cells: "{0..<6} \<times> {0..<4} = set (List.product [0..<6] [0..<4])"
  by simp

lemma corner_maps_onto: "set (concat corner_maps) = {0..<6::nat} \<times> {0..<4::nat}"
  unfolding all_cells
  by (simp add: corner_maps_def upt_rec numeral_eq_Suc insert_commute)

lemma assign_cell:
  assumes "well_shaped sides" and "f0 < 6" and "c0 < 4"
  shows "(f0 < length sides \<and> c0 < length (sides ! f0)) \<and>
     well_shaped (sides[f0 := (sides ! f0)[c0 := Some col]]) \<and>
     (\<forall>f<6. \<forall>c<4. filled (sides[f0 := (sides ! f0)[c0 := Some col]]) (f, c) \<longleftrightarrow>
         filled sides (f, c) \<or> (f, c) = (f0, c0))"
proof (intro conjI allI impI)
  from assms(1) have len: "length sides = 6" and rows: "\<forall>side\<in>set sides. length side = 4"
    by (simp_all add: well_shaped_def)
  from len assms(2) have "sides ! f0 \<in> set sides" by simp
  with rows have l0: "length (sides ! f0) = 4" by blast
  from len assms(2) show "f0 < length sides" by simp
  from l0 assms(3) show "c0 < length (sides ! f0)" by simp
  have "set (sides[f0 := (sides ! f0)[c0 := Some col]])
          \<subseteq> insert ((sides ! f0)[c0 := Some col]) (set sides)"
    by (rule set_update_subset_insert)
  with rows l0 len show "well_shaped (sides[f0 := (sides ! f0)[c0 := Some col]])"
    by (auto simp: well_shaped_def)
  fix f c :: nat
  assume "f < 6" "c < 4"
  with len l0 assms(2,3)
  show "filled (sides[f0 := (sides ! f0)[c0 := Some col]]) (f, c) \<longleftrightarrow>
        filled sides (f, c) \<or> (f, c) = (f0, c0)"
    by (cases "f = f0"; cases "c = c0") (simp_all add: filled_def)
qed

lemma render_cells_result:
  "well_shaped sides \<Longrightarrow> \<forall>fc \<in> set (map fst ws). fst fc < 6 \<and> snd fc < 4 \<Longrightarrow>
   \<exists>sides'. render_cells (sides, written) ws = Inr (sides', written @ map fst ws) \<and>
     well_shaped sides' \<and>
     (\<forall>f<6. \<forall>c<4. filled sides' (f, c) \<longleftrightarrow> filled sides (f, c) \<or> (f, c) \<in> set (map fst ws))"
proof (induction ws arbitrary: sides written)
  case Nil
  then show ?case by simp
next
  case (Cons w rest)
  obtain f0 c0 col where w: "w = ((f0, c0), col)" by (metis prod.exhaust)
  from Cons.prems(2) have b: "f0 < 6" "c0 < 4"
    and rest: "\<forall>fc \<in> set (map fst rest). fst fc < 6 \<and> snd fc < 4"
    by (simp_all add: w)
  define sides1 where "sides1 = sides[f0 := (sides ! f0)[c0 := Some col]]"
  from assign_cell [OF Cons.prems(1) b, of col, folded sides1_def]
  have a: "f0 < length sides \<and> c0 < length (sides ! f0)" "well_shaped sides1"
    "\<forall>f<6. \<forall>c<4. filled sides1 (f, c) \<longleftrightarrow> filled sides (f, c) \<or> (f, c) = (f0, c0)"
    by blast+
  from Cons.IH [OF a(2) rest, of "written @ [(f0, c0)]"] obtain sides' where
    s': "render_cells (sides1, written @ [(f0, c0)]) rest =
           Inr (sides', (written @ [(f0, c0)]) @ map fst rest)"
        "well_shaped sides'"
        "\<forall>f<6. \<forall>c<4. filled sides' (f, c) \<longleftrightarrow>
           filled sides1 (f, c) \<or> (f, c) \<in> set (map fst rest)"
    by blast
  from a(1) s'(1) have run: "render_cells (sides, written) (w # rest) =
      Inr (sides', written @ map fst (w # rest))"
    by (simp add: w sides1_def)
  have "\<forall>f<6. \<forall>c<4. filled sides' (f, c) \<longleftrightarrow>
      filled sides (f, c) \<or> (f, c) \<in> set (map fst (w # rest))"
  proof (intro allI impI)
    fix f c :: nat
    assume fc: "f < 6" "c < 4"
    from s'(3) fc have "filled sides' (f, c) \<longleftrightarrow>
        filled sides1 (f, c) \<or> (f, c) \<in> set (map fst rest)"
      by blast
    moreover from a(3) fc have "filled sides1 (f, c) \<longleftrightarrow> filled sides (f, c) \<or> (f, c) = (f0, c0)"
      by blast
    ultimately show "filled sides' (f, c) \<longleftrightarrow> filled sides (f, c) \<or> (f, c) \<in> set (map fst (w # rest))"
      by (auto simp: w)
  qed
  with run s'(2) show ?case by blast
qed

lemma corner_colors_getitem:
  assumes "0 \<le> corner" and "corner < 8"
  shows "\<exists>cols. tuple_getitem corner_colors corner = Inr cols \<and> length cols = 3"
proof -
  have l: "length corner_colors = 8" by (simp add: corner_colors_def)
  have "\<forall>cols \<in> set corner_colors. length cols = 3" by (simp add: corner_colors_def)
  moreover from assms l have "corner_colors ! nat corner \<in> set corner_colors" by simp
  ultimately have "length (corner_colors ! nat corner) = 3" by blast
  with assms l show ?thesis by (simp add: tuple_getitem_def)
qed

lemma render_corners_result:
  "well_shaped sides \<Longrightarrow>
   \<forall>x \<in> set xs. 0 \<le> fst x \<and> fst x < 8 \<and> length (snd (snd x)) = 3 \<and>
      (\<forall>fc \<in> set (snd (snd x)). fst fc < 6 \<and> snd fc < 4) \<Longrightarrow>
   \<exists>sides'. render_corners (sides, written) xs =
        Inr (sides', written @ concat (map (\<lambda>x. snd (snd x)) xs)) \<and>
     well_shaped sides' \<and>
     (\<forall>f<6. \<forall>c<4. filled sides' (f, c) \<longleftrightarrow>
        filled sides (f, c) \<or> (f, c) \<in> set (concat (map (\<lambda>x. snd (snd x)) xs)))"
proof (induction xs arbitrary: sides written)
  case Nil
  then show ?case by simp
next
  case (Cons x rest)
  obtain corner orient maps where x: "x = (corner, orient, maps)" by (metis prod.exhaust)
  from Cons.prems(2) have c: "0 \<le> corner" "corner < 8" and m: "length maps = 3"
    and mb: "\<forall>fc \<in> set maps. fst fc < 6 \<and> snd fc < 4"
    and rest: "\<forall>x \<in> set rest. 0 \<le> fst x \<and> fst x < 8 \<and> length (snd (snd x)) = 3 \<and>
      (\<forall>fc \<in> set (snd (snd x)). fst fc < 6 \<and> snd fc < 4)"
    by (simp_all add: x)
  from corner_colors_getitem [OF c] obtain cols where
    cols: "tuple_getitem corner_colors corner = Inr cols" "length cols = 3"
    by blast
  define ws where "ws = zip maps (common_map_orient cols orient)"
  from m cols(2) have fst_ws: "map fst ws = maps"
    by (simp add: ws_def common_map_orient_def)
  with mb have "\<forall>fc \<in> set (map fst ws). fst fc < 6 \<and> snd fc < 4" by simp
  from render_cells_result [OF Cons.prems(1) this, of written] obtain sides1 where
    s1: "render_cells (sides, written) ws = Inr (sides1, written @ maps)"
        "well_shaped sides1"
        "\<forall>f<6. \<forall>c<4. filled sides1 (f, c) \<longleftrightarrow> filled sides (f, c) \<or> (f, c) \<in> set maps"
    unfolding fst_ws by blast
  from Cons.IH [OF s1(2) rest, of "written @ maps"] obtain sides' where
    s': "render_corners (sides1, written @ maps) rest =
           Inr (sides', (written @ maps) @ concat (map (\<lambda>x. snd (snd x)) rest))"
        "well_shaped sides'"
        "\<forall>f<6. \<forall>c<4. filled sides' (f, c) \<longleftrightarrow>
           filled sides1 (f, c) \<or> (f, c) \<in> set (concat (map (\<lambda>x. snd (snd x)) rest))"
    by blast
  from cols(1) s1(1) s'(1) have run: "render_corners (sides, written) (x # rest) =
      Inr (sides', written @ concat (map (\<lambda>x. snd (snd x)) (x # rest)))"
    by (simp add: x ws_def)
  have "\<forall>f<6. \<forall>c<4. filled sides' (f, c) \<longleftrightarrow>
      filled sides (f, c) \<or> (f, c) \<in> set (concat (map (\<lambda>x. snd (snd x)) (x # rest)))"
  proof (intro allI impI)
    fix f c :: nat
    assume fc: "f < 6" "c < 4"
    from s'(3) fc have "filled sides' (f, c) \<longleftrightarrow>
        filled sides1 (f, c) \<or> (f, c) \<in> set (concat (map (\<lambda>x. snd (snd x)) rest))"
      by blast
    moreover from s1(3) fc have "filled sides1 (f, c) \<longleftrightarrow> filled sides (f, c) \<or> (f, c) \<in> set maps"
      by blast
    ultimately show "filled sides' (f, c) \<longleftrightarrow>
        filled sides (f, c) \<or> (f, c) \<in> set (concat (map (\<lambda>x. snd (snd x)) (x # rest)))"
      by (auto simp: x)
  qed
  with run s'(2) show ?case by blast
qed

lemma corner_maps_entries:
  "length corner_maps = 8"
  "\<forall>maps \<in> set corner_maps. length maps = 3 \<and> (\<forall>fc \<in> set maps. fst fc < 6 \<and> snd fc < 4)"
  by (simp_all add: corner_maps_def)

lemma well_shaped_init_sides: "well_shaped init_sides"
  by (simp add: well_shaped_def init_sides_def)

lemma render_sides_valid:
  assumes "valid_state s"
  shows "\<exists>sides. render_sides s = Inr (sides, concat corner_maps) \<and>
           length sides = 6 \<and> (\<forall>side \<in> set sides. length side = 4 \<and> None \<notin> set side)"
proof -
  from assms have len: "length (corner_pos s) = 8" "length (corner_ort s) = 8"
    and pos: "set (corner_pos s) = {0..7}"
    by (simp_all add: valid_state_def)
  define xs where "xs = zip (corner_pos s) (zip (corner_ort s) corner_maps)"
  from len corner_maps_entries(1) have "map snd (map snd xs) = corner_maps"
    by (simp add: xs_def)
  then have maps: "map (\<lambda>x. snd (snd x)) xs = corner_maps"
    by (simp add: comp_def)
  have ok: "\<forall>x \<in> set xs. 0 \<le> fst x \<and> fst x < 8 \<and> length (snd (snd x)) = 3 \<and>
      (\<forall>fc \<in> set (snd (snd x)). fst fc < 6 \<and> snd fc < 4)"
  proof
    fix x
    assume x: "x \<in> set xs"
    obtain corner orient maps where t: "x = (corner, orient, maps)" by (metis prod.exhaust)
    from x have "corner \<in> set (corner_pos s)" and "(orient, maps) \<in> set (zip (corner_ort s) corner_maps)"
      unfolding xs_def t by (auto dest: set_zip_leftD set_zip_rightD)
    then have "corner \<in> {0..7}" and "maps \<in> set corner_maps"
      using pos by (auto dest: set_zip_rightD)
    with corner_maps_entries(2)
    show "0 \<le> fst x \<and> fst x < 8 \<and> length (snd (snd x)) = 3 \<and>
      (\<forall>fc \<in> set (snd (snd x)). fst fc < 6 \<and> snd fc < 4)"
      unfolding t by auto
  qed
  from render_corners_result [OF well_shaped_init_sides ok, of "[]"] obtain sides where
    r: "render_corners (init_sides, []) xs = Inr (sides, concat corner_maps)"
       "well_shaped sides"
       "\<forall>f<6. \<forall>c<4. filled sides (f, c) \<longleftrightarrow>
          filled init_sides (f, c) \<or> (f, c) \<in> set (concat corner_maps)"
    unfolding maps by auto
  from r(1) have run: "render_sides s = Inr (sides, concat corner_maps)"
    by (simp add: render_sides_def xs_def)
  from r(2) have sh: "length sides = 6" "\<forall>side \<in> set sides. length side = 4"
    by (simp_all add: well_shaped_def)
  have all: "sides ! f ! c \<noteq> None" if "f < 6" "c < 4" for f c
  proof -
    from that have "(f, c) \<in> set (concat corner_maps)"
      unfolding corner_maps_onto by simp
    with r(3) that have "filled sides (f, c)" by blast
    then show ?thesis by (simp add: filled_def)
  qed
  have "None \<notin> set side" if "side \<in> set sides" for side
  proof
    assume "None \<in> set side"
    from that sh(1) obtain f where f: "f < 6" "side = sides ! f"
      by (metis in_set_conv_nth)
    from that sh(2) have "length side = 4" by blast
    with \<open>None \<in> set side\<close> obtain c where c: "c < 4" "side ! c = None"
      by (metis in_set_conv_nth)
    with all [OF f(1) c(1)] f(2) show False by simp
  qed
  with run sh show ?thesis by blast
qed

text \<open>
  Claim C8. The placement table \<open>corner_maps\<close> has 24 entries (8 slots with 3 colour
  positions each), no two of them equal, and together they are all 24 (side, cell)
  coordinates of 6 sides with 4 cells: the table is a bijection onto the coordinates. For
  every state of the data model (one that satisfies its invariants), the coordinates that
  \<open>render\<close> assigns to are, in order, the entries of the table, so every cell is assigned
  exactly once, and the six sides returned have four cells each, none of them empty.
\<close>

theorem render_fills_each_cell_once:
  "length (concat corner_maps) = 24 \<and> distinct (concat corner_maps) \<and>
   set (concat corner_maps) = {0..<6} \<times> {0..<4} \<and>
   (valid_state s \<longrightarrow>
      (\<exists>sides. render_sides s = Inr (sides, concat corner_maps) \<and>
         length sides = 6 \<and> (\<forall>side \<in> set sides. length side = 4 \<and> None \<notin> set side) \<and>
         render s = Inr \<lparr>top_side = sides ! 0, front_side = sides ! 3, left_side = sides ! 1,
                         right_side = sides ! 4, back_side = sides ! 2, bottom_side = sides ! 5\<rparr>))"
proof (intro conjI impI)
  show "length (concat corner_maps) = 24"
    by (simp add: corner_maps_def)
  show "distinct (concat corner_maps)"
    by (rule corner_maps_distinct)
  show "set (concat corner_maps) = {0..<6} \<times> {0..<4}"
    by (rule corner_maps_onto)
  assume "valid_state s"
  from render_sides_valid [OF this] obtain sides where
    r: "render_sides s = Inr (sides, concat corner_maps)" "length sides = 6"
       "\<forall>side \<in> set sides. length side = 4 \<and> None \<notin> set side"
    by blast
  from r(1) have "render s = Inr \<lparr>top_side = sides ! 0, front_side = sides ! 3,
      left_side = sides ! 1, right_side = sides ! 4, back_side = sides ! 2,
      bottom_side = sides ! 5\<rparr>"
    by (simp add: render_def)
  with r show "\<exists>sides. render_sides s = Inr (sides, concat corner_maps) \<and>
         length sides = 6 \<and> (\<forall>side \<in> set sides. length side = 4 \<and> None \<notin> set side) \<and>
         render s = Inr \<lparr>top_side = sides ! 0, front_side = sides ! 3, left_side = sides ! 1,
                         right_side = sides ! 4, back_side = sides ! 2, bottom_side = sides ! 5\<rparr>"
    by blast
qed

text \<open>The hypothesis of C8 at the identity state.\<close>

theorem render_fills_each_cell_once_witness:
  "valid_state initial_state \<and>
   render initial_state =
     Inr \<lparr>top_side = [Some ''W'', Some ''W'', Some ''W'', Some ''W''],
          front_side = [Some ''R'', Some ''R'', Some ''R'', Some ''R''],
          left_side = [Some ''G'', Some ''G'', Some ''G'', Some ''G''],
          right_side = [Some ''B'', Some ''B'', Some ''B'', Some ''B''],
          back_side = [Some ''O'', Some ''O'', Some ''O'', Some ''O''],
          bottom_side = [Some ''Y'', Some ''Y'', Some ''Y'', Some ''Y'']\<rparr> \<and>
   map_sum id snd (render_sides initial_state) = Inr (concat corner_maps)"
proof -
  have e: "render initial_state =
     Inr \<lparr>top_side = [Some ''W'', Some ''W'', Some ''W'', Some ''W''],
          front_side = [Some ''R'', Some ''R'', Some ''R'', Some ''R''],
          left_side = [Some ''G'', Some ''G'', Some ''G'', Some ''G''],
          right_side = [Some ''B'', Some ''B'', Some ''B'', Some ''B''],
          back_side = [Some ''O'', Some ''O'', Some ''O'', Some ''O''],
          bottom_side = [Some ''Y'', Some ''Y'', Some ''Y'', Some ''Y'']\<rparr>"
    by code_simp
  from render_fills_each_cell_once [of initial_state] valid_initial_state e
  show ?thesis by auto
qed

end
